theory Spec2Isabelle
  imports Main "HOL-Library.Multiset" "HOL-Library.Word" "HOL-Library.Signed_Division"
begin

section \<open>Data model (download/models.go)\<close>

type_synonym bytes = "8 word list"

text \<open>
  Go's \<open>int64\<close> is modelled as \<open>int\<close> with the two's-complement wrap-around of
  every addition and conversion written out.
\<close>

definition wrap64 :: "int \<Rightarrow> int" where
  "wrap64 x = (x + 2 ^ 63) mod 2 ^ 64 - 2 ^ 63"

text \<open>
  \<open>Options\<close>: the fields \<open>Connections\<close> and \<open>Timeout\<close> are Go \<open>uint\<close>, 64
  bits wide; the conversion \<open>int64(s.opts.Connections)\<close> reads the same bits as a signed
  number.
\<close>

record Options =
  Connections :: "64 word"
  Timeout :: "64 word"
  CheckETag :: bool
  DestFilePath :: string

definition int64_of_uint :: "64 word \<Rightarrow> int" where
  "int64_of_uint c = sint c"

text \<open>\<open>fileMetadata\<close>; the field \<open>size\<close> is named \<open>fsize\<close> here.\<close>

record fileMetadata =
  fsize :: int
  contentType :: string
  eTag :: string

text \<open>\<open>sourceFileMetadata\<close> embeds \<open>fileMetadata\<close>; \<open>estLatency\<close> is a duration in nanoseconds.\<close>

record sourceFileMetadata = fileMetadata +
  url :: string
  estLatency :: int

text \<open>The error values of download/service.go, and the errors built elsewhere.\<close>

datatype error =
    ErrNoSourceUrls
  | ErrSourcesFileMismatch
  | ErrETagMismatch
  | ErrUnknownContentLength
  | ErrPartialRequestUnsupported
  | ErrFailedChunkDownloadAllSources
  | ErrReceived int string  \<comment> \<open>\<open>fmt.Errorf("received %d response from %s", status, url)\<close>\<close>
  | ErrOther string  \<comment> \<open>an error of the HTTP client or of the file system, by its message\<close>

text \<open>What the code reads of an \<open>http.Response\<close>.\<close>

record response =
  StatusCode :: int
  ContentLength :: int
  Header :: "string \<rightharpoonup> string"
  Body :: bytes

text \<open>\<open>Header.Get\<close>: the value of the header, or the empty string when it is absent.\<close>

definition Get :: "(string \<rightharpoonup> string) \<Rightarrow> string \<Rightarrow> string" where
  "Get h k = (case h k of None \<Rightarrow> [] | Some v \<Rightarrow> v)"

text \<open>\<open>strings.Trim(s, cutset)\<close>: all leading and trailing characters of the cutset removed.\<close>

definition Trim :: "string \<Rightarrow> string \<Rightarrow> string" where
  "Trim s cutset =
     rev (dropWhile (\<lambda>c. c \<in> set cutset) (rev (dropWhile (\<lambda>c. c \<in> set cutset) s)))"

section \<open>The environment of one Download call\<close>

text \<open>
  Everything outside the program that a call observes: the answers of the HTTP servers,
  the results of the file-system calls, the order in which concurrent goroutines finish,
  and the two standard-library functions the code calls (\<open>sort.Slice\<close>, \<open>md5.Sum\<close>).
  A HEAD request is identified by the index of its URL in the input list; a ranged GET by
  the chunk index and the index of the URL in the prioritized list, so that every request
  of a call may be answered differently (a cancelled context, a server that fails once).
  A library call that fails gives its message; the program sees it as \<open>ErrOther\<close>.
\<close>

record env =
  httpHead :: "nat \<Rightarrow> string \<Rightarrow> string + response"
  elapsed :: "nat \<Rightarrow> int"
  probeSched :: "nat list"
  osCreate :: "string option"
  httpGet :: "nat \<Rightarrow> nat \<Rightarrow> string \<Rightarrow> int \<Rightarrow> int \<Rightarrow> string + response"
  writeErr :: "nat \<Rightarrow> string option"
  taskSched :: "nat list"
  statErr :: "string option"
  readErr :: "string option"
  readCount :: "nat \<Rightarrow> nat"
  osRename :: "string option"
  sort_Slice :: "(sourceFileMetadata \<Rightarrow> sourceFileMetadata \<Rightarrow> bool)
                 \<Rightarrow> sourceFileMetadata list \<Rightarrow> sourceFileMetadata list"
  md5_Sum :: "bytes \<Rightarrow> bytes"

text \<open>
  The order in which concurrent goroutines finish: \<open>shuffle ks xs\<close> lists \<open>xs\<close> in the
  order chosen by the scheduler's choices \<open>ks\<close> (the next to finish is the one at
  position \<open>k mod n\<close> among the \<open>n\<close> still running). Every result is a permutation of
  \<open>xs\<close>, and every permutation is the result of some \<open>ks\<close>.
\<close>

fun shuffle :: "nat list \<Rightarrow> 'a list \<Rightarrow> 'a list" where
  "shuffle ks [] = []"
| "shuffle [] (x # xs) = x # xs"
| "shuffle (k # ks) (x # xs) =
     (let j = k mod length (x # xs)
      in (x # xs) ! j # shuffle ks (take j (x # xs) @ drop (Suc j) (x # xs)))"

text \<open>\<open>errgroup.Group.Wait\<close>: the first non-nil error in the order the goroutines returned.\<close>

fun firstErr :: "(error + 'a) list \<Rightarrow> error option" where
  "firstErr [] = None"
| "firstErr (Inl e # rs) = Some e"
| "firstErr (Inr v # rs) = firstErr rs"

fun oks :: "(error + 'a) list \<Rightarrow> 'a list" where
  "oks [] = []"
| "oks (Inl e # rs) = oks rs"
| "oks (Inr v # rs) = v # oks rs"

section \<open>Probing the sources (download/service.go, fetchFileMetadataFromSources)\<close>

text \<open>
  The body of one probe goroutine, given the result of \<open>httpClient.Do\<close> and the measured
  time. The descriptor it sends sets \<open>url\<close>, \<open>estLatency\<close>, \<open>size\<close> and \<open>eTag\<close>;
  \<open>contentType\<close> is not set and keeps Go's zero value, the empty string.
\<close>

definition probe :: "string \<Rightarrow> string + response \<Rightarrow> int \<Rightarrow> error + sourceFileMetadata" where
  "probe u r lat =
     (case r of
        Inl msg \<Rightarrow> Inl (ErrOther msg)
      | Inr resp \<Rightarrow>
          if StatusCode resp \<noteq> 200 then Inl (ErrReceived (StatusCode resp) u)
          else if ContentLength resp = - 1 then Inl ErrUnknownContentLength
          else
            let acceptRanges = Get (Header resp) ''Accept-Ranges''
            in if length acceptRanges = 0 \<or> acceptRanges = ''none''
               then Inl ErrPartialRequestUnsupported
               else Inr \<lparr>fsize = ContentLength resp,
                         contentType = [],
                         eTag = Trim (Get (Header resp) ''ETag'') [CHR 0x22],
                         url = u,
                         estLatency = lat\<rparr>)"

text \<open>
  The descriptors received from the channel, in the order the probes sent them, and the
  group's error.
\<close>

definition probeOutcomes :: "env \<Rightarrow> string list \<Rightarrow> (error + sourceFileMetadata) list" where
  "probeOutcomes ev sourceUrls =
     shuffle (probeSched ev)
       (map (\<lambda>k. probe (sourceUrls ! k) (httpHead ev k (sourceUrls ! k)) (elapsed ev k))
            [0 ..< length sourceUrls])"

definition fetchFileMetadataFromSources ::
    "env \<Rightarrow> string list \<Rightarrow> sourceFileMetadata list \<times> error option" where
  "fetchFileMetadataFromSources ev sourceUrls =
     (oks (probeOutcomes ev sourceUrls), firstErr (probeOutcomes ev sourceUrls))"

section \<open>Helpers (download/helpers.go)\<close>

text \<open>The loop of \<open>allSourcesMatchFileMetadata\<close> compares every descriptor with its successor.\<close>

fun allSourcesMatchFileMetadata :: "sourceFileMetadata list \<Rightarrow> bool \<Rightarrow> bool" where
  "allSourcesMatchFileMetadata (sfmA # sfmB # rest) checkETag =
     (if fsize sfmA \<noteq> fsize sfmB \<or> contentType sfmA \<noteq> contentType sfmB then False
      else if checkETag \<and> eTag sfmA \<noteq> eTag sfmB then False
      else allSourcesMatchFileMetadata (sfmB # rest) checkETag)"
| "allSourcesMatchFileMetadata srcFileMetas checkETag = True"

text \<open>
  \<open>sourceUrlsSortedByEstLatency\<close>: the copy sorted by \<open>sort.Slice\<close> with the comparison
  \<open>estLatency a < estLatency b\<close>, then the URLs. \<open>sort.Slice\<close> is Go's library function,
  taken from the environment.
\<close>

definition lessLatency :: "sourceFileMetadata \<Rightarrow> sourceFileMetadata \<Rightarrow> bool" where
  "lessLatency a b = (estLatency a < estLatency b)"

definition sourceUrlsSortedByEstLatency :: "env \<Rightarrow> sourceFileMetadata list \<Rightarrow> string list" where
  "sourceUrlsSortedByEstLatency ev srcFileMetas = map url (sort_Slice ev lessLatency srcFileMetas)"

text \<open>
  What Go documents of \<open>sort.Slice\<close>, for any comparison \<open>less\<close>. The slice is sorted
  in place by swapping elements, so the result is a permutation of the input. When
  \<open>less\<close> is a strict weak ordering (irreflexive; transitive; if neither \<open>less a b\<close> nor
  \<open>less b c\<close> then not \<open>less a c\<close>: the requirement on \<open>Less\<close> in package sort), the
  result is sorted by it: no later element is less than an earlier one. The sort is not
  guaranteed to be stable, so nothing is said about the order of elements of which
  neither is less than the other.
\<close>

definition strictWeakOrdering :: "('a \<Rightarrow> 'a \<Rightarrow> bool) \<Rightarrow> bool" where
  "strictWeakOrdering lt =
     ((\<forall>a. \<not> lt a a)
      \<and> (\<forall>a b c. lt a b \<and> lt b c \<longrightarrow> lt a c)
      \<and> (\<forall>a b c. \<not> lt a b \<and> \<not> lt b c \<longrightarrow> \<not> lt a c))"

definition sortContract ::
    "((sourceFileMetadata \<Rightarrow> sourceFileMetadata \<Rightarrow> bool)
      \<Rightarrow> sourceFileMetadata list \<Rightarrow> sourceFileMetadata list) \<Rightarrow> bool" where
  "sortContract srt =
     (\<forall>lt xs. mset (srt lt xs) = mset xs
        \<and> (strictWeakOrdering lt \<longrightarrow> sorted_wrt (\<lambda>a b. \<not> lt b a) (srt lt xs)))"

text \<open>
  Go's insertion sort (\<open>insertionSortLessFunc\<close>, which \<open>sort.Slice\<close> runs on slices of at
  most 12 elements): each element, from left to right, moves
  left into the sorted prefix while it is less than its left neighbour.
\<close>

fun insertLess :: "('a \<Rightarrow> 'a \<Rightarrow> bool) \<Rightarrow> 'a \<Rightarrow> 'a list \<Rightarrow> 'a list" where
  "insertLess lt x [] = [x]"
| "insertLess lt x (y # ys) = (if lt x y then x # y # ys else y # insertLess lt x ys)"

definition insertionSortLess :: "('a \<Rightarrow> 'a \<Rightarrow> bool) \<Rightarrow> 'a list \<Rightarrow> 'a list" where
  "insertionSortLess lt xs = foldl (\<lambda>acc x. insertLess lt x acc) [] xs"

text \<open>\<open>min\<close> of helpers.go.\<close>

definition min_int64 :: "int \<Rightarrow> int \<Rightarrow> int" where
  "min_int64 a b = (if a < b then a else b)"

text \<open>
  \<open>fmt.Sprintf("%x", md5.Sum(b))\<close>: two lower-case hexadecimal digits for every byte of
  the digest. \<open>md5.Sum\<close> is the library's function, taken from the environment.
\<close>

definition hexDigit :: "nat \<Rightarrow> char" where
  "hexDigit d = ''0123456789abcdef'' ! d"

definition hexBytes :: "bytes \<Rightarrow> string" where
  "hexBytes bs = concat (map (\<lambda>b. [hexDigit (unat b div 16), hexDigit (unat b mod 16)]) bs)"

text \<open>
  The inverse reading of two hexadecimal digits per byte, high digit first: what a
  hexadecimal string stands for.
\<close>

definition hexValue :: "char \<Rightarrow> nat" where
  "hexValue c = length (takeWhile (\<lambda>d. d \<noteq> c) ''0123456789abcdef'')"

fun unhex :: "string \<Rightarrow> bytes" where
  "unhex (h # l # cs) = of_nat (16 * hexValue h + hexValue l) # unhex cs"
| "unhex cs = []"

text \<open>
  The buffer of \<open>GetMD5Hash\<close> after \<open>b := make([]byte, fileInfo.Size())\<close> and the one
  call \<open>file.Read(b)\<close>, whose count is discarded: \<open>Read\<close> reads up to \<open>len(b)\<close> bytes,
  and the bytes it did not fill stay zero. \<open>readCount ev n\<close> is the number of bytes the
  operating system delivers to a read of \<open>n\<close> bytes.
\<close>

definition readBuffer :: "env \<Rightarrow> bytes \<Rightarrow> bytes" where
  "readBuffer ev contents =
     (let n = min (readCount ev (length contents)) (length contents)
      in take n contents @ replicate (length contents - n) 0)"

text \<open>
  \<open>GetMD5Hash\<close> on an open file with the given contents, read from its start:
  \<open>file.Stat\<close> and \<open>file.Read\<close> may fail, and a read of no byte into a non-empty buffer
  is the error \<open>io.EOF\<close>.
\<close>

definition GetMD5Hash :: "env \<Rightarrow> bytes \<Rightarrow> error + string" where
  "GetMD5Hash ev contents =
     (case statErr ev of
        Some msg \<Rightarrow> Inl (ErrOther msg)
      | None \<Rightarrow>
          (case readErr ev of
             Some msg \<Rightarrow> Inl (ErrOther msg)
           | None \<Rightarrow>
               if contents \<noteq> [] \<and> readCount ev (length contents) = 0
               then Inl (ErrOther ''EOF'')
               else Inr (hexBytes (md5_Sum ev (readBuffer ev contents)))))"

section \<open>Downloading the chunks (download/service.go, downloadFileContents)\<close>

text \<open>
  What a call does to the outside, in order: the file-system calls and the ranged GETs.
  \<open>HttpGet u first last\<close> is the request \<open>fetchChunk\<close> sends to \<open>u\<close> with the header
  \<open>Range: bytes=first-last\<close>.
\<close>

datatype event =
    Create string
  | HttpGet string int int
  | WriteAt string int bytes
  | Md5 string
  | Rename string string
  | Close string

text \<open>One iteration of the chunk loop: the values its goroutine captures.\<close>

record chunk =
  idx :: nat
  offset :: int
  limit :: int
  srcIdxInitAttempt :: nat

text \<open>
  The loop \<open>for offset, i := int64(0), 0; offset < size; offset, i = offset+chunkSize, i+1\<close>
  over \<open>m\<close> source URLs. It need not terminate: not returning is the value \<open>None\<close>.
\<close>

partial_function (option) chunkLoop ::
    "int \<Rightarrow> int \<Rightarrow> nat \<Rightarrow> int \<Rightarrow> nat \<Rightarrow> chunk list option" where
  "chunkLoop chunkSize sz m off i =
     (if off < sz
      then Option.bind (chunkLoop chunkSize sz m (wrap64 (off + chunkSize)) (i + 1))
             (\<lambda>cs. Some (\<lparr>idx = i, offset = off,
                           limit = min_int64 (wrap64 (off + chunkSize)) sz,
                           srcIdxInitAttempt = i mod m\<rparr> # cs))
      else Some [])"

declare chunkLoop.simps [code]

text \<open>\<open>fetchChunk\<close> for chunk \<open>i\<close> at the source of index \<open>j\<close>; the body is read whole.\<close>

definition fetchChunk :: "env \<Rightarrow> nat \<Rightarrow> nat \<Rightarrow> string \<Rightarrow> int \<Rightarrow> int \<Rightarrow> error + bytes" where
  "fetchChunk ev i j u start endp =
     (case httpGet ev i j u start endp of
        Inl msg \<Rightarrow> Inl (ErrOther msg)
      | Inr resp \<Rightarrow>
          if StatusCode resp \<noteq> 206 then Inl (ErrReceived (StatusCode resp) u)
          else Inr (Body resp))"

text \<open>
  The retry loop \<open>for j := 0; j < len(sourceUrls) && err != nil; j++\<close> of a chunk's
  goroutine, over the remaining values of \<open>j\<close>. The state is the list of source indices
  tried so far and the result of the last \<open>fetchChunk\<close>.
\<close>

fun retry ::
    "env \<Rightarrow> string list \<Rightarrow> chunk \<Rightarrow> nat list \<Rightarrow> nat list \<times> (error + bytes)
     \<Rightarrow> nat list \<times> (error + bytes)" where
  "retry ev sourceUrls c [] st = st"
| "retry ev sourceUrls c (j # js) (tried, Inr b) = (tried, Inr b)"
| "retry ev sourceUrls c (j # js) (tried, Inl e) =
     (if j = srcIdxInitAttempt c then retry ev sourceUrls c js (tried, Inl e)
      else retry ev sourceUrls c js
             (tried @ [j], fetchChunk ev (idx c) j (sourceUrls ! j) (offset c) (limit c)))"

text \<open>
  The fetching part of a chunk's goroutine: the source indices tried, in order, and the
  chunk's bytes or the error the goroutine returns.
\<close>

definition fetchWithFailover :: "env \<Rightarrow> string list \<Rightarrow> chunk \<Rightarrow> nat list \<times> (error + bytes)" where
  "fetchWithFailover ev sourceUrls c =
     (let p = srcIdxInitAttempt c
      in case fetchChunk ev (idx c) p (sourceUrls ! p) (offset c) (limit c) of
           Inr b \<Rightarrow> ([p], Inr b)
         | Inl e \<Rightarrow>
             (case retry ev sourceUrls c [0 ..< length sourceUrls] ([p], Inl e) of
                (tried, Inl e') \<Rightarrow> (tried, Inl ErrFailedChunkDownloadAllSources)
              | (tried, Inr b) \<Rightarrow> (tried, Inr b)))"

text \<open>
  A positional write of \<open>d\<close> at \<open>off\<close> into a file with contents \<open>f\<close>: a gap is filled
  with zero bytes.
\<close>

definition pwrite :: "bytes \<Rightarrow> nat \<Rightarrow> bytes \<Rightarrow> bytes" where
  "pwrite f off d = take off (f @ replicate (off - length f) 0) @ d @ drop (off + length d) f"

text \<open>
  \<open>io.Copy(io.NewOffsetWriter(destFile, offset), bytes.NewReader(chunk))\<close>: an empty
  chunk writes nothing; \<open>WriteAt\<close> refuses a negative offset and may fail.
\<close>

definition copyAt :: "env \<Rightarrow> chunk \<Rightarrow> bytes \<Rightarrow> bytes \<Rightarrow> error + bytes" where
  "copyAt ev c d f =
     (if d = [] then Inr f
      else if offset c < 0 then Inl (ErrOther ''negative offset'')
      else case writeErr ev (idx c) of
             Some msg \<Rightarrow> Inl (ErrOther msg)
           | None \<Rightarrow> Inr (pwrite f (nat (offset c)) d))"

text \<open>One goroutine of the group: the error it returns, its events and the file after it.\<close>

definition chunkTask ::
    "env \<Rightarrow> string list \<Rightarrow> string \<Rightarrow> chunk \<Rightarrow> bytes \<Rightarrow> (error + unit) \<times> event list \<times> bytes" where
  "chunkTask ev sourceUrls destFile c f =
     (case fetchWithFailover ev sourceUrls c of
        (tried, Inl e) \<Rightarrow>
          (Inl e, map (\<lambda>j. HttpGet (sourceUrls ! j) (offset c) (limit c)) tried, f)
      | (tried, Inr d) \<Rightarrow>
          (case copyAt ev c d f of
             Inl e \<Rightarrow>
               (Inl e, map (\<lambda>j. HttpGet (sourceUrls ! j) (offset c) (limit c)) tried, f)
           | Inr f' \<Rightarrow>
               (Inr (),
                map (\<lambda>j. HttpGet (sourceUrls ! j) (offset c) (limit c)) tried
                  @ (if d = [] then [] else [WriteAt destFile (offset c) d]),
                f')))"

text \<open>The goroutines in the order they finish.\<close>

fun runTasks ::
    "env \<Rightarrow> string list \<Rightarrow> string \<Rightarrow> chunk list \<Rightarrow> bytes
     \<Rightarrow> (error + unit) list \<times> event list \<times> bytes" where
  "runTasks ev sourceUrls destFile [] f = ([], [], f)"
| "runTasks ev sourceUrls destFile (c # cs) f =
     (case chunkTask ev sourceUrls destFile c f of
        (r, tr, f') \<Rightarrow>
          (case runTasks ev sourceUrls destFile cs f' of
             (rs, tr', f'') \<Rightarrow> (r # rs, tr @ tr', f'')))"

text \<open>How a call ends: it returns (an error or nil) or it panics.\<close>

datatype panic = DivideByZero | IndexOutOfRange

datatype outcome = Returned "error option" | Panicked panic

text \<open>
  \<open>downloadFileContents\<close>: Go's integer division truncates and panics on a zero divisor,
  as does \<open>i % len(sourceUrls)\<close> in the first iteration of the loop.
\<close>

definition downloadFileContents ::
    "Options \<Rightarrow> env \<Rightarrow> string list \<Rightarrow> fileMetadata \<Rightarrow> string \<Rightarrow> bytes
     \<Rightarrow> (outcome \<times> event list \<times> bytes) option" where
  "downloadFileContents opts ev sourceUrls fm destFile f =
     (if int64_of_uint (Connections opts) = 0 then Some (Panicked DivideByZero, [], f)
      else if 0 < fsize fm \<and> length sourceUrls = 0 then Some (Panicked DivideByZero, [], f)
      else
        case chunkLoop (wrap64 (fsize fm sdiv int64_of_uint (Connections opts)))
               (fsize fm) (length sourceUrls) 0 0 of
          None \<Rightarrow> None
        | Some cs \<Rightarrow>
            (case runTasks ev sourceUrls destFile (shuffle (taskSched ev) cs) f of
               (rs, tr, f') \<Rightarrow> Some (Returned (firstErr rs), tr, f')))"

section \<open>The Download operation (download/service.go)\<close>

definition suffixOngoingDownload :: string where
  "suffixOngoingDownload = ''.download''"

record run =
  result :: outcome
  trace :: "event list"
  files :: "string \<rightharpoonup> bytes"

text \<open>The integrity check of \<open>Download\<close>: the error it returns, if any, and its events.\<close>

definition checkETag :: "Options \<Rightarrow> env \<Rightarrow> fileMetadata \<Rightarrow> string \<Rightarrow> bytes \<Rightarrow> error option \<times> event list" where
  "checkETag opts ev fm staging f =
     (if CheckETag opts \<and> length (eTag fm) > 0
      then (case GetMD5Hash ev f of
              Inl e \<Rightarrow> (Some e, [Md5 staging])
            | Inr md5Hash \<Rightarrow>
                if md5Hash \<noteq> eTag fm then (Some ErrETagMismatch, [Md5 staging])
                else (None, [Md5 staging]))
      else (None, []))"

text \<open>
  \<open>os.Rename\<close> of the staging file onto the destination path; a rename that fails
  changes nothing.
\<close>

definition rename ::
    "Options \<Rightarrow> env \<Rightarrow> string \<Rightarrow> bytes \<Rightarrow> (string \<rightharpoonup> bytes)
     \<Rightarrow> error option \<times> event list \<times> (string \<rightharpoonup> bytes)" where
  "rename opts ev staging f fs =
     (case osRename ev of
        Some msg \<Rightarrow> (Some (ErrOther msg), [Rename staging (DestFilePath opts)], fs)
      | None \<Rightarrow>
          (None, [Rename staging (DestFilePath opts)],
           (fs(staging := None))(DestFilePath opts \<mapsto> f)))"

text \<open>
  \<open>Download\<close> from \<open>os.Create\<close> on, with the reconciled metadata. The deferred
  \<open>ongoingDownloadFile.Close()\<close> runs when the function returns or panics.
\<close>

definition downloadStaged ::
    "Options \<Rightarrow> env \<Rightarrow> (string \<rightharpoonup> bytes) \<Rightarrow> sourceFileMetadata list \<Rightarrow> fileMetadata
     \<Rightarrow> run option" where
  "downloadStaged opts ev fs srcFileMetas fm =
     (let staging = DestFilePath opts @ suffixOngoingDownload
      in case osCreate ev of
           Some msg \<Rightarrow> Some \<lparr>result = Returned (Some (ErrOther msg)), trace = [], files = fs\<rparr>
         | None \<Rightarrow>
             (case downloadFileContents opts ev (sourceUrlsSortedByEstLatency ev srcFileMetas)
                     fm staging [] of
                None \<Rightarrow> None
              | Some (Panicked p, tr, f) \<Rightarrow>
                  Some \<lparr>result = Panicked p,
                        trace = Create staging # tr @ [Close staging],
                        files = fs(staging \<mapsto> f)\<rparr>
              | Some (Returned (Some e), tr, f) \<Rightarrow>
                  Some \<lparr>result = Returned (Some e),
                        trace = Create staging # tr @ [Close staging],
                        files = fs(staging \<mapsto> f)\<rparr>
              | Some (Returned None, tr, f) \<Rightarrow>
                  (case checkETag opts ev fm staging f of
                     (Some e, tr') \<Rightarrow>
                       Some \<lparr>result = Returned (Some e),
                             trace = Create staging # tr @ tr' @ [Close staging],
                             files = fs(staging \<mapsto> f)\<rparr>
                   | (None, tr') \<Rightarrow>
                       (case rename opts ev staging f (fs(staging \<mapsto> f)) of
                          (r, tr'', fs') \<Rightarrow>
                            Some \<lparr>result = Returned r,
                                  trace = Create staging # tr @ tr' @ tr'' @ [Close staging],
                                  files = fs'\<rparr>))))"

text \<open>
  \<open>Download\<close> on the file system \<open>fs\<close>; \<open>None\<close> when the call does not return.
  \<open>srcFileMetas[0]\<close> panics on an empty slice.
\<close>

definition Download :: "Options \<Rightarrow> env \<Rightarrow> (string \<rightharpoonup> bytes) \<Rightarrow> string list \<Rightarrow> run option" where
  "Download opts ev fs sourceUrls =
     (if length sourceUrls = 0
      then Some \<lparr>result = Returned (Some ErrNoSourceUrls), trace = [], files = fs\<rparr>
      else
        case fetchFileMetadataFromSources ev sourceUrls of
          (srcFileMetas, Some err) \<Rightarrow>
            Some \<lparr>result = Returned (Some err), trace = [], files = fs\<rparr>
        | (srcFileMetas, None) \<Rightarrow>
            if \<not> allSourcesMatchFileMetadata srcFileMetas (CheckETag opts)
            then Some \<lparr>result = Returned (Some ErrSourcesFileMismatch), trace = [], files = fs\<rparr>
            else
              (case srcFileMetas of
                 [] \<Rightarrow> Some \<lparr>result = Panicked IndexOutOfRange, trace = [], files = fs\<rparr>
               | sfm # rest \<Rightarrow>
                   downloadStaged opts ev fs srcFileMetas (fileMetadata.truncate sfm)))"

section \<open>Concrete runs: cooperating servers\<close>

text \<open>
  A server that holds \<open>content\<close> and answers \<open>Range: bytes=a-b\<close> with status 206 and the
  bytes \<open>a\<close> to \<open>b\<close> inclusive, as far as the content goes (RFC 9110, section 14.1.2).
\<close>

definition serveRange :: "bytes \<Rightarrow> int \<Rightarrow> int \<Rightarrow> string + response" where
  "serveRange content a b =
     Inr \<lparr>StatusCode = 206,
          ContentLength = min b (int (length content) - 1) - a + 1,
          Header = Map.empty,
          Body = take (nat (min b (int (length content) - 1) - a + 1)) (drop (nat a) content)\<rparr>"

definition serveHead :: "bytes \<Rightarrow> string \<Rightarrow> string \<Rightarrow> string + response" where
  "serveHead content ctype etag =
     Inr \<lparr>StatusCode = 200,
          ContentLength = int (length content),
          Header = [''Accept-Ranges'' \<mapsto> ''bytes'', ''Content-Type'' \<mapsto> ctype, ''ETag'' \<mapsto> etag],
          Body = []\<rparr>"

text \<open>
  An environment in which every source serves \<open>content\<close>, every probe takes the same
  time, goroutines finish in the order they were started, no file-system call fails and
  every read is complete, \<open>sort.Slice\<close> is the insertion sort and the digest is a
  stand-in for \<open>md5.Sum\<close> (the first byte of the contents; the theorems below hold for
  every digest function).
\<close>

definition fixtureEnv :: "bytes \<Rightarrow> env" where
  "fixtureEnv content =
     \<lparr>httpHead = (\<lambda>k u. serveHead content ''text/plain'' [CHR 0x22, CHR ''0'', CHR ''1'', CHR 0x22]),
      elapsed = (\<lambda>k. 5),
      probeSched = [],
      osCreate = None,
      httpGet = (\<lambda>i j u a b. serveRange content a b),
      writeErr = (\<lambda>i. None),
      taskSched = [],
      statErr = None,
      readErr = None,
      readCount = (\<lambda>n. n),
      osRename = None,
      sort_Slice = insertionSortLess,
      md5_Sum = take 1\<rparr>"


text \<open>
  One source whose \<open>ETag\<close> is the hexadecimal digest of the content it serves, under the
  identity as the stand-in for \<open>md5.Sum\<close>; a read of the staging file delivers at most
  \<open>n\<close> bytes.
\<close>

definition shortReadEnv :: "bytes \<Rightarrow> nat \<Rightarrow> env" where
  "shortReadEnv content n =
     (fixtureEnv content)
       \<lparr>httpHead := \<lambda>k u. serveHead content ''text/plain''
                                ([CHR 0x22] @ hexBytes content @ [CHR 0x22]),
        md5_Sum := \<lambda>b. b,
        readCount := \<lambda>m. min m n\<rparr>"

definition fixtureOpts :: "64 word \<Rightarrow> bool \<Rightarrow> Options" where
  "fixtureOpts n etag =
     \<lparr>Connections = n, Timeout = 10, CheckETag = etag, DestFilePath = ''dest.txt''\<rparr>"

text \<open>\<open>precedes a b tr\<close>: the first \<open>a\<close> of the trace comes before some \<open>b\<close>.\<close>

fun precedes :: "event \<Rightarrow> event \<Rightarrow> event list \<Rightarrow> bool" where
  "precedes a b [] = False"
| "precedes a b (x # xs) = (if x = a then b \<in> set xs else precedes a b xs)"



text \<open>The events of the chunk goroutines writing to \<open>dest\<close>, and the paths an event names.\<close>

fun chunkEvent :: "string \<Rightarrow> event \<Rightarrow> bool" where
  "chunkEvent dest (HttpGet u a b) = True"
| "chunkEvent dest (WriteAt p off d) = (p = dest)"
| "chunkEvent dest x = False"

fun paths :: "event \<Rightarrow> string list" where
  "paths (Create p) = [p]"
| "paths (HttpGet u a b) = []"
| "paths (WriteAt p off d) = [p]"
| "paths (Md5 p) = [p]"
| "paths (Rename p q) = [p, q]"
| "paths (Close p) = [p]"

section \<open>Basic facts: finishing orders, group results, probes\<close>

lemma mset_shuffle: "mset (shuffle ks xs) = mset xs"
proof (induction ks xs rule: shuffle.induct)
  case (3 k ks x xs)
  let ?ys = "x # xs"
  let ?j = "k mod length ?ys"
  have j: "?j < length ?ys" by simp
  have "mset ?ys = mset (take ?j ?ys @ ?ys ! ?j # drop (Suc ?j) ?ys)"
    using id_take_nth_drop [OF j] by simp
  then have "mset ?ys = add_mset (?ys ! ?j) (mset (take ?j ?ys @ drop (Suc ?j) ?ys))"
    by simp
  with 3 show ?case by (simp add: Let_def)
qed simp_all

lemma set_shuffle: "set (shuffle ks xs) = set xs"
  using mset_shuffle [of ks xs] by (metis set_mset_mset)

lemma length_shuffle: "length (shuffle ks xs) = length xs"
  using mset_shuffle [of ks xs] by (metis size_mset)

lemma firstErr_None_iff: "firstErr rs = None \<longleftrightarrow> (\<forall>r \<in> set rs. \<not> isl r)"
  by (induction rs rule: firstErr.induct) auto

lemma firstErr_Some_mem: "firstErr rs = Some e \<Longrightarrow> Inl e \<in> set rs"
  by (induction rs rule: firstErr.induct) auto

lemma oks_filter: "oks rs = map projr (filter (\<lambda>r. \<not> isl r) rs)"
  by (induction rs rule: oks.induct) auto

lemma mset_oks: "mset (oks rs) = image_mset projr (filter_mset (\<lambda>r. \<not> isl r) (mset rs))"
  by (simp add: oks_filter)

lemma mset_oks_shuffle: "mset (oks (shuffle ks rs)) = mset (oks rs)"
  by (simp add: mset_oks mset_shuffle)

lemma firstErr_shuffle_None: "firstErr (shuffle ks rs) = None \<longleftrightarrow> firstErr rs = None"
  by (simp add: firstErr_None_iff set_shuffle)

lemma oks_all: "firstErr rs = None \<Longrightarrow> oks rs = map projr rs"
  by (induction rs rule: firstErr.induct) auto

lemma length_oks_all: "firstErr rs = None \<Longrightarrow> length (oks rs) = length rs"
  by (simp add: oks_all)

lemma probe_Inr_fields:
  "probe u r lat = Inr d \<Longrightarrow> url d = u \<and> estLatency d = lat \<and> contentType d = []"
  by (auto simp: probe_def Let_def split: sum.splits if_splits)






lemma pairwise_step:
  assumes "k A = k B"
  shows "(\<forall>a \<in> set (B # rest). \<forall>b \<in> set (B # rest). k a = k b)
       = (\<forall>a \<in> set (A # B # rest). \<forall>b \<in> set (A # B # rest). k a = (k b :: 'b))"
  using assms by simp

lemma allSourcesMatch_Cons2:
  "allSourcesMatchFileMetadata (A # B # rest) chk
   = (fsize A = fsize B \<and> contentType A = contentType B \<and> (chk \<longrightarrow> eTag A = eTag B)
      \<and> allSourcesMatchFileMetadata (B # rest) chk)"
  by auto

lemma allSourcesMatch_pairwise:
  "allSourcesMatchFileMetadata ms chk \<longleftrightarrow>
     (\<forall>a \<in> set ms. \<forall>b \<in> set ms.
        fsize a = fsize b \<and> contentType a = contentType b \<and> (chk \<longrightarrow> eTag a = eTag b))"
proof -
  define k where "k = (\<lambda>a::sourceFileMetadata. (fsize a, contentType a, if chk then eTag a else []))"
  have pw: "(fsize a = fsize b \<and> contentType a = contentType b \<and> (chk \<longrightarrow> eTag a = eTag b))
            = (k a = k b)" for a b
    by (simp add: k_def)
  have "allSourcesMatchFileMetadata ms chk \<longleftrightarrow> (\<forall>a \<in> set ms. \<forall>b \<in> set ms. k a = k b)"
  proof (induction ms)
    case Nil
    show ?case by simp
  next
    case (Cons A ms)
    show ?case
    proof (cases ms)
      case Nil
      then show ?thesis by simp
    next
      case (Cons B rest)
      show ?thesis
      proof (cases "k A = k B")
        case True
        have c: "fsize A = fsize B \<and> contentType A = contentType B \<and> (chk \<longrightarrow> eTag A = eTag B)"
          using True pw by blast
        have "allSourcesMatchFileMetadata (A # B # rest) chk
              = allSourcesMatchFileMetadata (B # rest) chk"
          unfolding allSourcesMatch_Cons2 using c by blast
        also have "\<dots> = (\<forall>a \<in> set (B # rest). \<forall>b \<in> set (B # rest). k a = k b)"
          using Cons.IH Cons by simp
        also have "\<dots> = (\<forall>a \<in> set (A # B # rest). \<forall>b \<in> set (A # B # rest). k a = k b)"
          using pairwise_step [of k A B rest] True by blast
        finally show ?thesis using Cons by simp
      next
        case False
        have c: "\<not> (fsize A = fsize B \<and> contentType A = contentType B \<and> (chk \<longrightarrow> eTag A = eTag B))"
          using False pw by blast
        have "\<not> allSourcesMatchFileMetadata (A # B # rest) chk"
          unfolding allSourcesMatch_Cons2 using c by blast
        moreover have "\<not> (\<forall>a \<in> set (A # B # rest). \<forall>b \<in> set (A # B # rest). k a = k b)"
          using False by auto
        ultimately show ?thesis using Cons by simp
      qed
    qed
  qed
  then show ?thesis unfolding pw .
qed


section \<open>C7: which probes are rejected\<close>







section \<open>The chunk loop\<close>

lemma wrap64_id: "- (2 ^ 63) \<le> x \<Longrightarrow> x < 2 ^ 63 \<Longrightarrow> wrap64 x = x"
  by (simp add: wrap64_def)

lemma min_int64_min: "min_int64 a b = min a b"
  by (simp add: min_int64_def min_def)

lemma chunkLoop_plan:
  assumes "0 < c" and "0 \<le> off" and "sz + c < 2 ^ 63"
  shows "chunkLoop c sz m off i
         = Some (map (\<lambda>k. \<lparr>idx = i + k, offset = off + int k * c,
                             limit = min (off + int k * c + c) sz,
                             srcIdxInitAttempt = (i + k) mod m\<rparr>)
                     [0 ..< nat ((sz - off + c - 1) div c)])"
  using assms(2)
proof (induction "nat (sz - off)" arbitrary: off i rule: less_induct)
  case less
  show ?case
  proof (cases "off < sz")
    case False
    then have "(sz - off + c - 1) div c \<le> (c - 1) div c"
      using assms(1) by (intro zdiv_mono1) auto
    moreover have "(c - 1) div c = 0"
      using assms(1) by (simp add: div_pos_pos_trivial)
    ultimately have "(sz - off + c - 1) div c \<le> 0" by simp
    then have "nat ((sz - off + c - 1) div c) = 0" by simp
    with False show ?thesis by (subst chunkLoop.simps) simp
  next
    case True
    have w: "wrap64 (off + c) = off + c"
      using True less.prems assms by (intro wrap64_id) auto
    have n: "nat ((sz - off + c - 1) div c) = Suc (nat ((sz - (off + c) + c - 1) div c))"
    proof -
      have "(sz - off + c - 1) div c = ((sz - off - 1) + c) div c"
        by (simp add: algebra_simps)
      also have "\<dots> = (sz - off - 1) div c + 1"
        using assms(1) by (subst div_add_self2) auto
      finally have "(sz - off + c - 1) div c = (sz - off - 1) div c + 1" .
      moreover have "0 \<le> (sz - off - 1) div c"
        using True assms(1) by (simp add: pos_imp_zdiv_nonneg_iff)
      ultimately show ?thesis by (simp add: algebra_simps nat_add_distrib)
    qed
    have ih: "chunkLoop c sz m (off + c) (i + 1)
         = Some (map (\<lambda>k. \<lparr>idx = (i + 1) + k, offset = (off + c) + int k * c,
                             limit = min ((off + c) + int k * c + c) sz,
                             srcIdxInitAttempt = ((i + 1) + k) mod m\<rparr>)
                     [0 ..< nat ((sz - (off + c) + c - 1) div c)])"
      using True assms(1) less.prems by (intro less.hyps) auto
    show ?thesis
      apply (subst chunkLoop.simps)
      apply (simp only: w ih n True if_True Option.bind.simps min_int64_min)
      apply (simp add: map_upt_Suc algebra_simps del: upt_Suc)
      done
  qed
qed


lemma chunkLoop_stuck:
  assumes "off < sz" and "wrap64 (off + c) = off"
  shows "chunkLoop c sz m off i = None"
proof (rule ccontr)
  assume "chunkLoop c sz m off i \<noteq> None"
  then obtain y where y: "chunkLoop c sz m off i = Some y" by auto
  have "\<not> (off < sz \<and> wrap64 (off + c) = off)"
    by (rule chunkLoop.raw_induct
          [where P = "\<lambda>c sz m off i y. \<not> (off < sz \<and> wrap64 (off + c) = off)", OF _ y])
       (auto split: if_splits Option.bind_splits)
  with assms show False by simp
qed

section \<open>C1: the byte ranges requested\<close>

text \<open>
  C1 at \<open>S = 4\<close>, \<open>n = 2\<close>, one source holding the bytes 10, 11, 12, 13: the loop passes
  \<open>limit = min (offset + chunkSize) size\<close>, an exclusive bound, to \<open>fetchChunk\<close>, which
  sends it as the inclusive last byte of the \<open>Range\<close> header. The call requests the
  bytes 0 to 2 and 2 to 4: byte 2 is fetched and written twice, and byte 4 lies beyond
  the last byte \<open>S - 1 = 3\<close> of the file.
\<close>

theorem C1_ranges_overlap:
  "map_option trace
     (Download (fixtureOpts 2 False) (fixtureEnv [10, 11, 12, 13]) Map.empty [''a''])
   = Some [Create ''dest.txt.download'',
           HttpGet ''a'' 0 2, WriteAt ''dest.txt.download'' 0 [10, 11, 12],
           HttpGet ''a'' 2 4, WriteAt ''dest.txt.download'' 2 [12, 13],
           Rename ''dest.txt.download'' ''dest.txt'', Close ''dest.txt.download'']"
  by code_simp

section \<open>C2: termination of the chunk loop\<close>

text \<open>
  C2 at \<open>S = 3\<close>, \<open>n = 5\<close> (the default number of connections): \<open>chunkSize\<close> is
  \<open>3 / 5 = 0\<close>, the offset never advances, and \<open>Download\<close> does not return.
\<close>

theorem C2_loop_never_ends:
  "Download (fixtureOpts 5 False) (fixtureEnv [1, 2, 3]) Map.empty [''a''] = None"
proof -
  have p: "fetchFileMetadataFromSources (fixtureEnv [1, 2, 3]) [''a'']
           = ([\<lparr>fsize = 3, contentType = [], eTag = ''01'', url = ''a'', estLatency = 5\<rparr>], None)"
    by code_simp
  have s: "sourceUrlsSortedByEstLatency (fixtureEnv [1, 2, 3])
             [\<lparr>fsize = 3, contentType = [], eTag = ''01'', url = ''a'', estLatency = 5\<rparr>] = [''a'']"
    by code_simp
  have c: "wrap64 (3 sdiv int64_of_uint 5) = 0" "int64_of_uint 5 \<noteq> 0"
    by (simp_all add: int64_of_uint_def wrap64_def signed_divide_int_def)
  have l: "chunkLoop 0 3 (length [''a'']) 0 0 = None"
    by (rule chunkLoop_stuck) (simp_all add: wrap64_def)
  have d: "downloadFileContents (fixtureOpts 5 False) (fixtureEnv [1, 2, 3]) [''a'']
             \<lparr>fsize = 3, contentType = [], eTag = ''01''\<rparr> staging [] = None" for staging
    using c l by (simp add: downloadFileContents_def fixtureOpts_def)
  show ?thesis
    using p s d
    by (simp add: Download_def downloadStaged_def fileMetadata.truncate_def fixtureOpts_def
        fixtureEnv_def)
qed

section \<open>C4: reconciling the descriptors\<close>

text \<open>
  C4 at two sources that serve four bytes each, one as \<open>text/plain\<close> and one as
  \<open>image/png\<close>: the prober leaves \<open>contentType\<close> empty in both descriptors, the
  reconciler compares two empty strings, and \<open>Download\<close> succeeds instead of returning
  \<open>ErrSourcesFileMismatch\<close>.
\<close>

theorem C4_content_type_ignored:
  "fst (fetchFileMetadataFromSources
          ((fixtureEnv [1, 2, 3, 4])
             \<lparr>httpHead := \<lambda>k u. serveHead [1, 2, 3, 4]
                                   (if k = 0 then ''text/plain'' else ''image/png'') []\<rparr>)
          [''a'', ''b''])
   = [\<lparr>fsize = 4, contentType = [], eTag = [], url = ''a'', estLatency = 5\<rparr>,
      \<lparr>fsize = 4, contentType = [], eTag = [], url = ''b'', estLatency = 5\<rparr>]
   \<and> map_option result
     (Download (fixtureOpts 2 False)
        ((fixtureEnv [1, 2, 3, 4])
           \<lparr>httpHead := \<lambda>k u. serveHead [1, 2, 3, 4]
                                 (if k = 0 then ''text/plain'' else ''image/png'') []\<rparr>)
        Map.empty [''a'', ''b''])
   = Some (Returned None)"
  by code_simp

section \<open>Failover within one chunk\<close>





lemma fetchWithFailover_error:
  "snd (fetchWithFailover ev urls c) = Inl e \<Longrightarrow> e = ErrFailedChunkDownloadAllSources"
  by (auto simp: fetchWithFailover_def Let_def split: sum.splits prod.splits)


section \<open>The group of chunk goroutines\<close>

lemma chunkTask_error:
  assumes "fst (chunkTask ev urls dest c g) = Inl e"
  shows "e = ErrFailedChunkDownloadAllSources \<or> (\<exists>msg. e = ErrOther msg)"
proof (cases "fetchWithFailover ev urls c")
  case (Pair tried r)
  show ?thesis
  proof (cases r)
    case (Inl e')
    then have "e' = ErrFailedChunkDownloadAllSources"
      using fetchWithFailover_error [of ev urls c e'] Pair by simp
    then show ?thesis using assms Pair Inl by (simp add: chunkTask_def)
  next
    case (Inr d)
    then show ?thesis
      using assms Pair
      by (auto simp: chunkTask_def copyAt_def split: sum.splits if_splits option.splits)
  qed
qed



lemma runTasks_results_from:
  "r \<in> set (fst (runTasks ev urls dest cs f))
   \<Longrightarrow> \<exists>c \<in> set cs. \<exists>g. r = fst (chunkTask ev urls dest c g)"
proof (induction cs arbitrary: f)
  case Nil
  then show ?case by simp
next
  case (Cons a cs)
  obtain r0 tr f' where t: "chunkTask ev urls dest a f = (r0, tr, f')"
    by (cases "chunkTask ev urls dest a f") auto
  obtain rs tr' f'' where u: "runTasks ev urls dest cs f' = (rs, tr', f'')"
    by (cases "runTasks ev urls dest cs f'") auto
  from Cons.prems t u have "r = r0 \<or> r \<in> set rs" by simp
  then show ?case
  proof
    assume "r = r0"
    then have "r = fst (chunkTask ev urls dest a f)" using t by simp
    then show ?thesis by auto
  next
    assume "r \<in> set rs"
    then have "r \<in> set (fst (runTasks ev urls dest cs f'))" using u by simp
    then show ?thesis using Cons.IH by auto
  qed
qed











section \<open>The insertion sort keeps the contract of sort.Slice\<close>

lemma mset_insertLess: "mset (insertLess lt x ys) = add_mset x (mset ys)"
  by (induction ys) simp_all

lemma set_insertLess: "set (insertLess lt x ys) = insert x (set ys)"
  by (induction ys) auto

lemma strictWeakOrdering_lessLatency: "strictWeakOrdering lessLatency"
  by (auto simp: strictWeakOrdering_def lessLatency_def)

lemma sorted_wrt_insertLess:
  assumes swo: "strictWeakOrdering lt"
    and srt: "sorted_wrt (\<lambda>a b. \<not> lt b a) ys"
  shows "sorted_wrt (\<lambda>a b. \<not> lt b a) (insertLess lt x ys)"
  using srt
proof (induction ys)
  case Nil
  show ?case by simp
next
  case (Cons y ys)
  have irrefl: "\<not> lt a a" for a using swo by (simp add: strictWeakOrdering_def)
  have trans: "lt a b \<Longrightarrow> lt b c \<Longrightarrow> lt a c" for a b c
    using swo unfolding strictWeakOrdering_def by blast
  show ?case
  proof (cases "lt x y")
    case True
    have "\<not> lt y x" using True trans irrefl by blast
    moreover have "\<not> lt z x" if "z \<in> set ys" for z
    proof
      assume "lt z x"
      then have "lt z y" using True trans by blast
      moreover have "\<not> lt z y" using Cons.prems that by simp
      ultimately show False by simp
    qed
    ultimately show ?thesis using True Cons.prems by simp
  next
    case False
    then show ?thesis using Cons by (simp add: set_insertLess)
  qed
qed

lemma foldl_insertLess:
  assumes "strictWeakOrdering lt"
  shows "sorted_wrt (\<lambda>a b. \<not> lt b a) acc
   \<Longrightarrow> sorted_wrt (\<lambda>a b. \<not> lt b a) (foldl (\<lambda>acc x. insertLess lt x acc) acc xs)"
  by (induction xs arbitrary: acc) (simp_all add: sorted_wrt_insertLess [OF assms])

lemma mset_foldl_insertLess:
  "mset (foldl (\<lambda>acc x. insertLess lt x acc) acc xs) = mset acc + mset xs"
  by (induction xs arbitrary: acc) (simp_all add: mset_insertLess)

lemma sortContract_insertionSortLess: "sortContract insertionSortLess"
proof -
  have "sorted_wrt (\<lambda>a b. \<not> lt b a) (insertionSortLess lt xs)"
    if "strictWeakOrdering lt"
    for lt :: "sourceFileMetadata \<Rightarrow> sourceFileMetadata \<Rightarrow> bool" and xs
    using foldl_insertLess [OF that, of "[]" xs] by (simp add: insertionSortLess_def)
  then show ?thesis
    by (simp add: sortContract_def insertionSortLess_def mset_foldl_insertLess)
qed

section \<open>C3: primary source, failover order, exhaustion\<close>






section \<open>C5: the prioritized URL list\<close>

lemma probed_urls:
  assumes "fetchFileMetadataFromSources ev sourceUrls = (metas, None)"
  shows "mset (map url metas) = mset sourceUrls" and "length metas = length sourceUrls"
proof -
  let ?f = "\<lambda>k. probe (sourceUrls ! k) (httpHead ev k (sourceUrls ! k)) (elapsed ev k)"
  let ?xs = "map ?f [0 ..< length sourceUrls]"
  have metas: "metas = oks (shuffle (probeSched ev) ?xs)"
    and none: "firstErr (shuffle (probeSched ev) ?xs) = None"
    using assms by (simp_all add: fetchFileMetadataFromSources_def probeOutcomes_def)
  have none': "firstErr ?xs = None" using none by (simp add: firstErr_shuffle_None)
  have "map url (oks ?xs) = map (\<lambda>k. sourceUrls ! k) [0 ..< length sourceUrls]"
  proof -
    have "url (projr (?f k)) = sourceUrls ! k" if "k < length sourceUrls" for k
    proof -
      have "\<forall>r \<in> set ?xs. \<not> isl r" using none' by (simp only: firstErr_None_iff)
      moreover have "?f k \<in> set ?xs" using that by simp
      ultimately have "\<not> isl (?f k)" by blast
      then obtain d where d: "?f k = Inr d" by (cases "?f k") auto
      then show ?thesis using probe_Inr_fields [OF d] by simp
    qed
    then show ?thesis by (simp add: oks_all [OF none'])
  qed
  then have u: "map url (oks ?xs) = sourceUrls" by (simp add: map_nth)
  have "mset (map url metas) = image_mset url (mset (oks (shuffle (probeSched ev) ?xs)))"
    by (simp add: metas)
  also have "\<dots> = image_mset url (mset (oks ?xs))" by (simp add: mset_oks_shuffle)
  also have "\<dots> = mset (map url (oks ?xs))" by simp
  finally show "mset (map url metas) = mset sourceUrls" using u by simp
  then show "length metas = length sourceUrls" by (metis length_map size_mset)
qed

text \<open>
  C5 as stated fails in its tie-breaking part. The descriptors reach \<open>Download\<close> through
  a channel, in the order the probes finish, not in the order of the input URLs. Two
  sources \<open>a\<close>, \<open>b\<close> with the same estimated latency, the probe of \<open>b\<close> finishing
  first: the prioritized list is \<open>b, a\<close>, even under a stable sort.
\<close>

theorem C5_counterexample:
  "map estLatency
     (fst (fetchFileMetadataFromSources ((fixtureEnv [1, 2, 3, 4])\<lparr>probeSched := [1]\<rparr>)
             [''a'', ''b''])) = [5, 5]
   \<and> sourceUrlsSortedByEstLatency ((fixtureEnv [1, 2, 3, 4])\<lparr>probeSched := [1]\<rparr>)
       (fst (fetchFileMetadataFromSources ((fixtureEnv [1, 2, 3, 4])\<lparr>probeSched := [1]\<rparr>)
               [''a'', ''b'']))
     = [''b'', ''a'']"
  by code_simp

text \<open>
  C5 (amended): when every probe succeeds and \<open>sort.Slice\<close> keeps its documented
  contract (for any comparison a permutation, sorted by the comparison when that is a
  strict weak ordering), the prioritized URL list is a permutation of the input URLs, and
  it lists the URLs of the descriptors in an order of non-decreasing estimated latency:
  the comparison the code passes, \<open>estLatency\<close> of the one below \<open>estLatency\<close> of the
  other, is a strict weak ordering, and a list in which no later element is below an
  earlier one by it has non-decreasing latencies. Nothing is promised about the relative
  order of sources with equal estimated latency.
\<close>

theorem C5_prioritized_urls:
  assumes "sortContract (sort_Slice ev)"
    and "fetchFileMetadataFromSources ev sourceUrls = (metas, None)"
  shows "mset (sourceUrlsSortedByEstLatency ev metas) = mset sourceUrls
    \<and> (\<exists>ds. mset ds = mset metas \<and> sorted (map estLatency ds)
           \<and> sourceUrlsSortedByEstLatency ev metas = map url ds)"
proof -
  let ?ds = "sort_Slice ev lessLatency metas"
  have perm: "mset ?ds = mset metas"
    using assms(1) by (simp add: sortContract_def)
  have "sorted_wrt (\<lambda>a b. \<not> lessLatency b a) ?ds"
    using assms(1) strictWeakOrdering_lessLatency by (simp add: sortContract_def)
  then have srt: "sorted (map estLatency ?ds)"
    by (simp add: sorted_map lessLatency_def not_less)
  have "mset (sourceUrlsSortedByEstLatency ev metas) = image_mset url (mset ?ds)"
    by (simp add: sourceUrlsSortedByEstLatency_def)
  also have "\<dots> = mset (map url metas)" by (simp add: perm)
  finally have "mset (sourceUrlsSortedByEstLatency ev metas) = mset sourceUrls"
    using probed_urls(1) [OF assms(2)] by simp
  moreover have "sourceUrlsSortedByEstLatency ev metas = map url ?ds"
    by (simp add: sourceUrlsSortedByEstLatency_def)
  ultimately show ?thesis using perm srt by blast
qed

theorem C5_prioritized_urls_witness:
  "mset (sourceUrlsSortedByEstLatency
           ((fixtureEnv [1, 2, 3, 4])\<lparr>elapsed := \<lambda>k. if k = 0 then 9 else 3\<rparr>)
           [\<lparr>fsize = 4, contentType = [], eTag = ''01'', url = ''a'', estLatency = 9\<rparr>,
            \<lparr>fsize = 4, contentType = [], eTag = ''01'', url = ''b'', estLatency = 3\<rparr>])
   = mset [''a'', ''b'']
   \<and> sourceUrlsSortedByEstLatency
           ((fixtureEnv [1, 2, 3, 4])\<lparr>elapsed := \<lambda>k. if k = 0 then 9 else 3\<rparr>)
           [\<lparr>fsize = 4, contentType = [], eTag = ''01'', url = ''a'', estLatency = 9\<rparr>,
            \<lparr>fsize = 4, contentType = [], eTag = ''01'', url = ''b'', estLatency = 3\<rparr>]
     = [''b'', ''a'']"
proof -
  let ?ev = "(fixtureEnv [1, 2, 3, 4])\<lparr>elapsed := \<lambda>k. if k = 0 then 9 else 3\<rparr>"
  let ?metas = "[\<lparr>fsize = 4, contentType = [], eTag = ''01'', url = ''a'', estLatency = 9\<rparr>,
            \<lparr>fsize = 4, contentType = [], eTag = ''01'', url = ''b'', estLatency = 3\<rparr>]"
  have h1: "sortContract (sort_Slice ?ev)"
    by (simp add: fixtureEnv_def sortContract_insertionSortLess)
  have h2: "fetchFileMetadataFromSources ?ev [''a'', ''b''] = (?metas, None)"
    by code_simp
  have v: "sourceUrlsSortedByEstLatency ?ev ?metas = [''b'', ''a'']"
    by code_simp
  show ?thesis using C5_prioritized_urls [OF h1 h2] v by simp
qed


section \<open>The shape of a Download run\<close>

lemma chunkTask_events:
  "chunkTask ev urls dest c f = (r, tr, f') \<Longrightarrow> \<forall>x \<in> set tr. chunkEvent dest x"
  by (auto simp: chunkTask_def split: prod.splits sum.splits if_splits)

lemma runTasks_events:
  "runTasks ev urls dest cs f = (rs, tr, f') \<Longrightarrow> \<forall>x \<in> set tr. chunkEvent dest x"
proof (induction cs arbitrary: f rs tr f')
  case Nil
  then show ?case by simp
next
  case (Cons c cs)
  obtain r t g where t: "chunkTask ev urls dest c f = (r, t, g)"
    by (cases "chunkTask ev urls dest c f") auto
  obtain rs' t' g' where u: "runTasks ev urls dest cs g = (rs', t', g')"
    by (cases "runTasks ev urls dest cs g") auto
  have "tr = t @ t'" using Cons.prems t u by simp
  then show ?case using chunkTask_events [OF t] Cons.IH [OF u] by auto
qed

lemma downloadFileContents_events:
  "downloadFileContents opts ev urls fm dest f = Some (res, tr, f')
   \<Longrightarrow> \<forall>x \<in> set tr. chunkEvent dest x"
  by (auto simp: downloadFileContents_def split: if_splits option.splits prod.splits
      dest: runTasks_events)

lemma downloadFileContents_errors:
  assumes "downloadFileContents opts ev urls fm dest f = Some (Returned (Some e), tr, f')"
  shows "e = ErrFailedChunkDownloadAllSources \<or> (\<exists>msg. e = ErrOther msg)"
proof -
  from assms obtain cs rs where run: "runTasks ev urls dest cs f = (rs, tr, f')"
    and e: "firstErr rs = Some e"
    by (auto simp: downloadFileContents_def split: if_splits option.splits prod.splits)
  have "Inl e \<in> set (fst (runTasks ev urls dest cs f))"
    using firstErr_Some_mem [OF e] run by simp
  then obtain c g where "Inl e = fst (chunkTask ev urls dest c g)"
    using runTasks_results_from by blast
  then show ?thesis using chunkTask_error [of ev urls dest c g e] by simp
qed

lemma downloadStaged_elim:
  assumes "downloadStaged opts ev fs ms fm = Some r"
  obtains
    (create) msg where "osCreate ev = Some msg"
      and "r = \<lparr>result = Returned (Some (ErrOther msg)), trace = [], files = fs\<rparr>"
  | (panic) p tr f where "osCreate ev = None"
      and "downloadFileContents opts ev (sourceUrlsSortedByEstLatency ev ms) fm
             (DestFilePath opts @ suffixOngoingDownload) [] = Some (Panicked p, tr, f)"
      and "r = \<lparr>result = Panicked p,
                trace = Create (DestFilePath opts @ suffixOngoingDownload) # tr
                        @ [Close (DestFilePath opts @ suffixOngoingDownload)],
                files = fs(DestFilePath opts @ suffixOngoingDownload \<mapsto> f)\<rparr>"
  | (failed) e tr f where "osCreate ev = None"
      and "downloadFileContents opts ev (sourceUrlsSortedByEstLatency ev ms) fm
             (DestFilePath opts @ suffixOngoingDownload) [] = Some (Returned (Some e), tr, f)"
      and "r = \<lparr>result = Returned (Some e),
                trace = Create (DestFilePath opts @ suffixOngoingDownload) # tr
                        @ [Close (DestFilePath opts @ suffixOngoingDownload)],
                files = fs(DestFilePath opts @ suffixOngoingDownload \<mapsto> f)\<rparr>"
  | (unverified) e tr f tr' where "osCreate ev = None"
      and "downloadFileContents opts ev (sourceUrlsSortedByEstLatency ev ms) fm
             (DestFilePath opts @ suffixOngoingDownload) [] = Some (Returned None, tr, f)"
      and "checkETag opts ev fm (DestFilePath opts @ suffixOngoingDownload) f = (Some e, tr')"
      and "r = \<lparr>result = Returned (Some e),
                trace = Create (DestFilePath opts @ suffixOngoingDownload) # tr @ tr'
                        @ [Close (DestFilePath opts @ suffixOngoingDownload)],
                files = fs(DestFilePath opts @ suffixOngoingDownload \<mapsto> f)\<rparr>"
  | (renamed) tr f tr' re tr'' fs' where "osCreate ev = None"
      and "downloadFileContents opts ev (sourceUrlsSortedByEstLatency ev ms) fm
             (DestFilePath opts @ suffixOngoingDownload) [] = Some (Returned None, tr, f)"
      and "checkETag opts ev fm (DestFilePath opts @ suffixOngoingDownload) f = (None, tr')"
      and "rename opts ev (DestFilePath opts @ suffixOngoingDownload) f
             (fs(DestFilePath opts @ suffixOngoingDownload \<mapsto> f)) = (re, tr'', fs')"
      and "r = \<lparr>result = Returned re,
                trace = Create (DestFilePath opts @ suffixOngoingDownload) # tr @ tr' @ tr''
                        @ [Close (DestFilePath opts @ suffixOngoingDownload)],
                files = fs'\<rparr>"
  using assms
  by (auto simp: downloadStaged_def Let_def
      split: option.splits prod.splits outcome.splits)

lemma Download_elim:
  assumes "Download opts ev fs sourceUrls = Some r"
  obtains
    (nourls) "sourceUrls = []"
      and "r = \<lparr>result = Returned (Some ErrNoSourceUrls), trace = [], files = fs\<rparr>"
  | (probe) ms err where "sourceUrls \<noteq> []"
      and "fetchFileMetadataFromSources ev sourceUrls = (ms, Some err)"
      and "r = \<lparr>result = Returned (Some err), trace = [], files = fs\<rparr>"
  | (mismatch) ms where "sourceUrls \<noteq> []"
      and "fetchFileMetadataFromSources ev sourceUrls = (ms, None)"
      and "\<not> allSourcesMatchFileMetadata ms (CheckETag opts)"
      and "r = \<lparr>result = Returned (Some ErrSourcesFileMismatch), trace = [], files = fs\<rparr>"
  | (empty) "sourceUrls \<noteq> []"
      and "fetchFileMetadataFromSources ev sourceUrls = ([], None)"
      and "r = \<lparr>result = Panicked IndexOutOfRange, trace = [], files = fs\<rparr>"
  | (staged) sfm rest where "sourceUrls \<noteq> []"
      and "fetchFileMetadataFromSources ev sourceUrls = (sfm # rest, None)"
      and "allSourcesMatchFileMetadata (sfm # rest) (CheckETag opts)"
      and "downloadStaged opts ev fs (sfm # rest) (fileMetadata.truncate sfm) = Some r"
  using assms
  by (auto simp: Download_def split: if_splits prod.splits option.splits list.splits)


lemma staging_neq:
  "DestFilePath opts @ suffixOngoingDownload \<noteq> DestFilePath opts"
  "DestFilePath opts \<noteq> DestFilePath opts @ suffixOngoingDownload"
  by (simp_all add: suffixOngoingDownload_def)

lemma chunkEvent_not:
  "chunkEvent dest x \<Longrightarrow> x \<noteq> Md5 p"
  "chunkEvent dest x \<Longrightarrow> x \<noteq> Rename p q"
  "chunkEvent dest x \<Longrightarrow> x \<noteq> Close p"
  "chunkEvent dest x \<Longrightarrow> x \<noteq> Create p"
  by (cases x; simp)+

lemma chunkEvents_notin:
  assumes "\<forall>x \<in> set tr. chunkEvent dest x"
  shows "Md5 p \<notin> set tr" and "Rename p q \<notin> set tr" and "Close p \<notin> set tr"
    and "Create p \<notin> set tr"
  using assms by (auto simp: chunkEvent_not)

lemma probe_error_kinds:
  "probe u r lat = Inl e \<Longrightarrow>
     (\<exists>msg. e = ErrOther msg) \<or> (\<exists>st. e = ErrReceived st u)
     \<or> e = ErrUnknownContentLength \<or> e = ErrPartialRequestUnsupported"
  by (auto simp: probe_def Let_def split: sum.splits if_splits)

lemma fetchFileMetadata_error_kinds:
  assumes "fetchFileMetadataFromSources ev sourceUrls = (ms, Some e)"
  shows "(\<exists>msg. e = ErrOther msg) \<or> (\<exists>st u. e = ErrReceived st u)
     \<or> e = ErrUnknownContentLength \<or> e = ErrPartialRequestUnsupported"
proof -
  have "firstErr (probeOutcomes ev sourceUrls) = Some e"
    using assms by (simp add: fetchFileMetadataFromSources_def)
  then have "Inl e \<in> set (probeOutcomes ev sourceUrls)"
    by (rule firstErr_Some_mem)
  then obtain k where "probe (sourceUrls ! k) (httpHead ev k (sourceUrls ! k)) (elapsed ev k) = Inl e"
    by (auto simp: probeOutcomes_def set_shuffle)
  then show ?thesis using probe_error_kinds by blast
qed

lemma hexDigit_lower: "d < 16 \<Longrightarrow> hexDigit d \<in> set ''0123456789abcdef''"
  unfolding hexDigit_def by (rule nth_mem) simp

lemma hexBytes_lower: "set (hexBytes bs) \<subseteq> set ''0123456789abcdef''"
proof -
  have "hexDigit (unat b div 16) \<in> set ''0123456789abcdef''
        \<and> hexDigit (unat b mod 16) \<in> set ''0123456789abcdef''" for b :: "8 word"
  proof -
    have "unat b < 256" using unsigned_less [of b] by simp
    then have "unat b div 16 < 16" by simp
    moreover have "unat b mod 16 < 16" by simp
    ultimately show ?thesis using hexDigit_lower by blast
  qed
  then show ?thesis unfolding hexBytes_def by (induction bs) auto
qed

lemma checkETag_cases:
  "checkETag opts ev fm s f =
     (if CheckETag opts \<and> eTag fm \<noteq> [] then
        (if statErr ev \<noteq> None then (Some (ErrOther (the (statErr ev))), [Md5 s])
         else if readErr ev \<noteq> None then (Some (ErrOther (the (readErr ev))), [Md5 s])
         else if f \<noteq> [] \<and> readCount ev (length f) = 0 then (Some (ErrOther ''EOF''), [Md5 s])
         else if hexBytes (md5_Sum ev (readBuffer ev f)) \<noteq> eTag fm
           then (Some ErrETagMismatch, [Md5 s])
         else (None, [Md5 s]))
      else (None, []))"
  by (auto simp: checkETag_def GetMD5Hash_def split: option.splits)


lemma suffix_nonempty: "suffixOngoingDownload \<noteq> []"
  by (simp add: suffixOngoingDownload_def)

lemma run_exists: "map_option result x = Some v \<Longrightarrow> \<exists>r. x = Some r \<and> result r = v"
  by (cases x) auto

lemma integrity_check_runs_iff:
  assumes run: "Download opts ev fs sourceUrls = Some r"
    and metas: "fetchFileMetadataFromSources ev sourceUrls = (sfm # rest, perr)"
  shows "Md5 (DestFilePath opts @ suffixOngoingDownload) \<in> set (trace r)
     \<longleftrightarrow> CheckETag opts \<and> eTag sfm \<noteq> [] \<and> perr = None
         \<and> allSourcesMatchFileMetadata (sfm # rest) (CheckETag opts)
         \<and> osCreate ev = None
         \<and> (\<exists>tr f. downloadFileContents opts ev
                       (sourceUrlsSortedByEstLatency ev (sfm # rest))
                       (fileMetadata.truncate sfm)
                       (DestFilePath opts @ suffixOngoingDownload) []
                     = Some (Returned None, tr, f))"
proof -
  note [simp] = staging_neq suffix_nonempty
  have et: "eTag (fileMetadata.truncate sfm) = eTag sfm"
    by (simp add: fileMetadata.truncate_def)
  from run show ?thesis
  proof (cases rule: Download_elim)
    case nourls
    then show ?thesis using metas
      by (simp add: fetchFileMetadataFromSources_def probeOutcomes_def)
  next
    case (probe ms err)
    then show ?thesis using metas by simp
  next
    case (mismatch ms)
    then show ?thesis using metas by auto
  next
    case empty
    then show ?thesis using metas by simp
  next
    case (staged sfm' rest')
    then have sfm: "sfm' = sfm" "rest' = rest" and perr: "perr = None"
      using metas by simp_all
    note am = staged(3) [unfolded sfm]
    from staged(4) [unfolded sfm] show ?thesis
    proof (cases rule: downloadStaged_elim)
      case (create msg)
      then show ?thesis by simp
    next
      case (panic p tr f)
      then show ?thesis using chunkEvents_notin [OF downloadFileContents_events [OF panic(2)]]
        by simp
    next
      case (failed e tr f)
      then show ?thesis
        using chunkEvents_notin [OF downloadFileContents_events [OF failed(2)]]
        by simp
    next
      case (unverified e tr f tr')
      note ce = chunkEvents_notin [OF downloadFileContents_events [OF unverified(2)]]
      have "tr' = [Md5 (DestFilePath opts @ suffixOngoingDownload)]"
        "CheckETag opts \<and> eTag sfm \<noteq> []"
        using unverified(3) et by (auto simp: checkETag_cases split: if_splits)
      then show ?thesis
        using unverified(1,2,4) am perr by simp
    next
      case (renamed tr f tr' re tr'' fs')
      note ce = chunkEvents_notin [OF downloadFileContents_events [OF renamed(2)]]
      have a: "tr'' = [Rename (DestFilePath opts @ suffixOngoingDownload) (DestFilePath opts)]"
        using renamed(4) by (auto simp: rename_def split: option.splits)
      have b: "(tr' = [Md5 (DestFilePath opts @ suffixOngoingDownload)]
                \<and> CheckETag opts \<and> eTag sfm \<noteq> [])
               \<or> (tr' = [] \<and> \<not> (CheckETag opts \<and> eTag sfm \<noteq> []))"
        using renamed(3) et by (auto simp: checkETag_cases split: if_splits)
      show ?thesis
        using renamed(1,2,5) am perr a b ce by auto
    qed
  qed
qed

lemma length_hexBytes: "length (hexBytes bs) = 2 * length bs"
  by (induction bs) (simp_all add: hexBytes_def)

lemma hexValue_hexDigit: "d < 16 \<Longrightarrow> hexValue (hexDigit d) = d"
proof -
  have "\<forall>d \<in> set [0 ..< 16]. hexValue (hexDigit d) = d" by code_simp
  then show "d < 16 \<Longrightarrow> hexValue (hexDigit d) = d" by simp
qed

lemma unhex_hexBytes: "unhex (hexBytes bs) = bs"
proof (induction bs)
  case Nil
  show ?case by (simp add: hexBytes_def)
next
  case (Cons b bs)
  have "unat b < 256" using unsigned_less [of b] by simp
  then have hi: "unat b div 16 < 16" by simp
  have lo: "unat b mod 16 < 16" by simp
  have "of_nat (16 * (unat b div 16) + unat b mod 16) = b" by simp
  then show ?case
    using Cons hexValue_hexDigit [OF hi] hexValue_hexDigit [OF lo]
    by (simp add: hexBytes_def)
qed

lemma readBuffer_complete:
  "length f \<le> readCount ev (length f) \<Longrightarrow> readBuffer ev f = f"
  by (simp add: readBuffer_def Let_def min_def)

text \<open>
  What the integrity check of \<open>Download\<close> does in a call that returns, with \<open>sfm\<close>
  the first descriptor received (its \<open>eTag\<close> is the reconciled tag) and the staging file
  at the destination path plus \<open>.download\<close>. The digest is taken exactly when
  \<open>CheckETag\<close> is set, the tag is not empty and the call got as far as a chunk download
  that returned nil. The call returns \<open>ErrETagMismatch\<close> exactly when the digest was
  taken, \<open>Stat\<close> and \<open>Read\<close> succeeded and the hexadecimal digest of the buffer that
  \<open>Read\<close> filled is not the very string of the tag; then no rename was attempted and the
  destination path is as it was. \<open>hexBytes\<close> writes two digits per byte, all among
  \<open>0\<close> to \<open>9\<close> and \<open>a\<close> to \<open>f\<close>, which read back as the bytes.
\<close>

lemma integrity_check_outcomes:
  assumes run: "Download opts ev fs sourceUrls = Some r"
    and metas: "fetchFileMetadataFromSources ev sourceUrls = (sfm # rest, perr)"
  shows "(Md5 (DestFilePath opts @ suffixOngoingDownload) \<in> set (trace r)
         \<longleftrightarrow> CheckETag opts \<and> eTag sfm \<noteq> [] \<and> perr = None
             \<and> allSourcesMatchFileMetadata (sfm # rest) (CheckETag opts)
             \<and> osCreate ev = None
             \<and> (\<exists>tr f. downloadFileContents opts ev
                           (sourceUrlsSortedByEstLatency ev (sfm # rest))
                           (fileMetadata.truncate sfm)
                           (DestFilePath opts @ suffixOngoingDownload) []
                         = Some (Returned None, tr, f)))
    \<and> (result r = Returned None \<and> CheckETag opts \<and> eTag sfm \<noteq> []
         \<longrightarrow> Md5 (DestFilePath opts @ suffixOngoingDownload) \<in> set (trace r)
           \<and> (\<exists>f. files r (DestFilePath opts) = Some f
                  \<and> hexBytes (md5_Sum ev (readBuffer ev f)) = eTag sfm))
    \<and> (result r = Returned (Some ErrETagMismatch)
         \<longleftrightarrow> Md5 (DestFilePath opts @ suffixOngoingDownload) \<in> set (trace r)
             \<and> statErr ev = None \<and> readErr ev = None
             \<and> (\<exists>f. files r (DestFilePath opts @ suffixOngoingDownload) = Some f
                    \<and> \<not> (f \<noteq> [] \<and> readCount ev (length f) = 0)
                    \<and> hexBytes (md5_Sum ev (readBuffer ev f)) \<noteq> eTag sfm))
    \<and> (result r = Returned (Some ErrETagMismatch)
         \<longrightarrow> (\<forall>p q. Rename p q \<notin> set (trace r))
           \<and> files r (DestFilePath opts) = fs (DestFilePath opts))
    \<and> set (hexBytes bs) \<subseteq> set ''0123456789abcdef''
    \<and> length (hexBytes bs) = 2 * length bs
    \<and> unhex (hexBytes bs) = bs"
  (is "?A \<and> ?B \<and> ?C \<and> ?D \<and> ?E")
proof -
  note [simp] = staging_neq suffix_nonempty
  let ?S = "DestFilePath opts @ suffixOngoingDownload"
  have E: ?E using hexBytes_lower length_hexBytes unhex_hexBytes by blast
  have A: ?A by (rule integrity_check_runs_iff [OF run metas])
  from run have "?B \<and> ?C \<and> ?D"
  proof (cases rule: Download_elim)
    case nourls
    then show ?thesis by simp
  next
    case (probe ms err)
    then show ?thesis using fetchFileMetadata_error_kinds [OF probe(2)] by auto
  next
    case (mismatch ms)
    then show ?thesis by simp
  next
    case empty
    then show ?thesis by simp
  next
    case (staged sfm' rest')
    then have sfm: "sfm' = sfm" using metas by simp
    have et: "eTag (fileMetadata.truncate sfm) = eTag sfm"
      by (simp add: fileMetadata.truncate_def)
    from staged(4) show ?thesis unfolding sfm
    proof (cases rule: downloadStaged_elim)
      case (create msg)
      then show ?thesis by simp
    next
      case (panic p tr f)
      then show ?thesis using chunkEvents_notin [OF downloadFileContents_events [OF panic(2)]]
        by simp
    next
      case (failed e tr f)
      then show ?thesis
        using chunkEvents_notin [OF downloadFileContents_events [OF failed(2)]]
          downloadFileContents_errors [OF failed(2)]
        by auto
    next
      case (unverified e tr f tr')
      note ce = chunkEvents_notin [OF downloadFileContents_events [OF unverified(2)]]
      show ?thesis
        using unverified(3,4) ce et
        by (auto simp: checkETag_cases split: if_splits)
    next
      case (renamed tr f tr' re tr'' fs')
      note ce = chunkEvents_notin [OF downloadFileContents_events [OF renamed(2)]]
      show ?thesis
        using renamed(3,4,5) ce et
        by (auto simp: checkETag_cases rename_def split: if_splits option.splits)
    qed
  qed
  with A E show ?thesis by blast
qed


section \<open>C6: the integrity check\<close>

text \<open>
  C6 fails where the claim says that the digest compared with the tag is that of the
  staged file. \<open>GetMD5Hash\<close>, documented as calculating the MD5 hash of the file
  contents, calls \<open>file.Read\<close> once and discards its count, and \<open>Read\<close> may deliver
  fewer bytes than the buffer holds (Go caps one read of a file at 1 GiB); the digest is
  then taken of the bytes read followed by zeros. Here one source serves the four bytes
  \<open>ab\<close>, \<open>cd\<close>, \<open>0e\<close>, \<open>f1\<close> with an \<open>ETag\<close> equal to the hexadecimal digest of
  these bytes (the digest function is the identity, a stand-in for \<open>md5.Sum\<close>), and one
  read delivers at most two bytes. The staged file is complete and its digest is the tag,
  yet the digest compared is that of \<open>ab\<close>, \<open>cd\<close>, 0, 0: \<open>Download\<close> returns
  \<open>ErrETagMismatch\<close> and the file is not published. With a read that delivers four
  bytes the same call returns nil and publishes the file.
\<close>

theorem C6_short_read_mismatch:
  "map eTag (fst (fetchFileMetadataFromSources (shortReadEnv [0xAB, 0xCD, 0x0E, 0xF1] 2) [''a'']))
     = [''abcd0ef1'']
   \<and> map_option (\<lambda>r. files r ''dest.txt.download'')
         (Download (fixtureOpts 1 True) (shortReadEnv [0xAB, 0xCD, 0x0E, 0xF1] 2)
            Map.empty [''a''])
       = Some (Some [0xAB, 0xCD, 0x0E, 0xF1])
   \<and> hexBytes (md5_Sum (shortReadEnv [0xAB, 0xCD, 0x0E, 0xF1] 2) [0xAB, 0xCD, 0x0E, 0xF1])
       = ''abcd0ef1''
   \<and> GetMD5Hash (shortReadEnv [0xAB, 0xCD, 0x0E, 0xF1] 2) [0xAB, 0xCD, 0x0E, 0xF1]
       = Inr ''abcd0000''
   \<and> map_option trace
         (Download (fixtureOpts 1 True) (shortReadEnv [0xAB, 0xCD, 0x0E, 0xF1] 2)
            Map.empty [''a''])
       = Some [Create ''dest.txt.download'',
               HttpGet ''a'' 0 4, WriteAt ''dest.txt.download'' 0 [0xAB, 0xCD, 0x0E, 0xF1],
               Md5 ''dest.txt.download'', Close ''dest.txt.download'']
   \<and> map_option result
         (Download (fixtureOpts 1 True) (shortReadEnv [0xAB, 0xCD, 0x0E, 0xF1] 2)
            Map.empty [''a''])
       = Some (Returned (Some ErrETagMismatch))
   \<and> map_option (\<lambda>r. files r ''dest.txt'')
         (Download (fixtureOpts 1 True) (shortReadEnv [0xAB, 0xCD, 0x0E, 0xF1] 2)
            Map.empty [''a''])
       = Some None
   \<and> GetMD5Hash (shortReadEnv [0xAB, 0xCD, 0x0E, 0xF1] 4) [0xAB, 0xCD, 0x0E, 0xF1]
       = Inr ''abcd0ef1''
   \<and> map_option (\<lambda>r. (result r, files r ''dest.txt''))
         (Download (fixtureOpts 1 True) (shortReadEnv [0xAB, 0xCD, 0x0E, 0xF1] 4)
            Map.empty [''a''])
       = Some (Returned None, Some [0xAB, 0xCD, 0x0E, 0xF1])"
  by code_simp


section \<open>C8: when the staging file is closed\<close>

lemma precedes_snoc:
  "a \<in> set tr \<Longrightarrow> precedes a b (tr @ [b])"
  by (induction tr) auto

lemma not_precedes_snoc:
  "b \<notin> set tr \<Longrightarrow> a \<noteq> b \<Longrightarrow> \<not> precedes b a (tr @ [b])"
  by (induction tr) auto

text \<open>
  C8 as stated fails: \<open>Download\<close> defers \<open>ongoingDownloadFile.Close()\<close>, so the close
  runs when \<open>Download\<close> returns, after the digest (which reads the open file) and after
  the rename. A successful call with one source and one connection:
\<close>

theorem C8_counterexample:
  "map_option result
     (Download (fixtureOpts 1 True) (fixtureEnv [1, 2, 3, 4]) Map.empty [''a''])
   = Some (Returned None)
   \<and> map_option trace
     (Download (fixtureOpts 1 True) (fixtureEnv [1, 2, 3, 4]) Map.empty [''a''])
   = Some [Create ''dest.txt.download'',
           HttpGet ''a'' 0 4, WriteAt ''dest.txt.download'' 0 [1, 2, 3, 4],
           Md5 ''dest.txt.download'', Rename ''dest.txt.download'' ''dest.txt'',
           Close ''dest.txt.download'']
   \<and> map_option (\<lambda>r. precedes (Close ''dest.txt.download'') (Md5 ''dest.txt.download'') (trace r))
     (Download (fixtureOpts 1 True) (fixtureEnv [1, 2, 3, 4]) Map.empty [''a''])
   = Some False
   \<and> map_option (\<lambda>r. precedes (Close ''dest.txt.download'')
                      (Rename ''dest.txt.download'' ''dest.txt'') (trace r))
     (Download (fixtureOpts 1 True) (fixtureEnv [1, 2, 3, 4]) Map.empty [''a''])
   = Some False"
  by code_simp

text \<open>
  C8 (amended): in every successful \<open>Download\<close> call the close of the staging file is
  the last file operation: it happens once, after the rename of the staging file onto the
  destination path and after the digest computation when that runs.
\<close>

theorem C8_close_is_last:
  assumes run: "Download opts ev fs sourceUrls = Some r"
    and ok: "result r = Returned None"
  shows "\<exists>tr. trace r = tr @ [Close (DestFilePath opts @ suffixOngoingDownload)]
      \<and> Close (DestFilePath opts @ suffixOngoingDownload) \<notin> set tr
      \<and> Rename (DestFilePath opts @ suffixOngoingDownload) (DestFilePath opts) \<in> set tr
      \<and> (\<forall>p. Md5 p \<in> set (trace r) \<longrightarrow> Md5 p \<in> set tr)
      \<and> precedes (Rename (DestFilePath opts @ suffixOngoingDownload) (DestFilePath opts))
            (Close (DestFilePath opts @ suffixOngoingDownload)) (trace r)
      \<and> \<not> precedes (Close (DestFilePath opts @ suffixOngoingDownload))
            (Rename (DestFilePath opts @ suffixOngoingDownload) (DestFilePath opts)) (trace r)
      \<and> (\<forall>p. \<not> precedes (Close (DestFilePath opts @ suffixOngoingDownload)) (Md5 p) (trace r))"
proof -
  note [simp] = staging_neq suffix_nonempty
  let ?S = "DestFilePath opts @ suffixOngoingDownload"
  let ?D = "DestFilePath opts"
  from run show ?thesis
  proof (cases rule: Download_elim)
    case (staged sfm rest)
    from staged(4) show ?thesis
    proof (cases rule: downloadStaged_elim)
      case (renamed tr f tr' re tr'' fs')
      note ce = chunkEvents_notin [OF downloadFileContents_events [OF renamed(2)]]
      let ?tr = "Create ?S # tr @ tr' @ tr''"
      have t: "trace r = ?tr @ [Close ?S]" using renamed(5) by simp
      have tr'': "tr'' = [Rename ?S ?D]"
        using renamed(4) by (auto simp: rename_def split: option.splits)
      have tr': "tr' = [] \<or> tr' = [Md5 ?S]"
        using renamed(3) by (auto simp: checkETag_cases split: if_splits)
      have c: "Close ?S \<notin> set ?tr" using ce tr' tr'' by auto
      have rn: "Rename ?S ?D \<in> set ?tr" using tr'' by simp
      have p1: "precedes (Rename ?S ?D) (Close ?S) (trace r)"
        unfolding t by (rule precedes_snoc [OF rn])
      have p2: "\<not> precedes (Close ?S) x (trace r)" if "x \<noteq> Close ?S" for x
        unfolding t using not_precedes_snoc [OF c] that by blast
      have "trace r = ?tr @ [Close ?S] \<and> Close ?S \<notin> set ?tr \<and> Rename ?S ?D \<in> set ?tr
          \<and> (\<forall>p. Md5 p \<in> set (trace r) \<longrightarrow> Md5 p \<in> set ?tr)
          \<and> precedes (Rename ?S ?D) (Close ?S) (trace r)
          \<and> \<not> precedes (Close ?S) (Rename ?S ?D) (trace r)
          \<and> (\<forall>p. \<not> precedes (Close ?S) (Md5 p) (trace r))"
        using t c rn p1 p2 by auto
      then show ?thesis by blast
    qed (use ok in auto)
  qed (use ok in auto)
qed


theorem C8_close_is_last_witness:
  "\<exists>r tr. Download (fixtureOpts 1 True) (fixtureEnv [1, 2, 3, 4]) Map.empty [''a''] = Some r
      \<and> result r = Returned None
      \<and> trace r = tr @ [Close ''dest.txt.download'']
      \<and> Close ''dest.txt.download'' \<notin> set tr
      \<and> Rename ''dest.txt.download'' ''dest.txt'' \<in> set tr"
proof -
  have "map_option result
          (Download (fixtureOpts 1 True) (fixtureEnv [1, 2, 3, 4]) Map.empty [''a''])
        = Some (Returned None)"
    by code_simp
  then obtain r where
    r: "Download (fixtureOpts 1 True) (fixtureEnv [1, 2, 3, 4]) Map.empty [''a''] = Some r"
    and ok: "result r = Returned None"
    using run_exists by blast
  have d: "DestFilePath (fixtureOpts 1 True) = ''dest.txt''"
    "suffixOngoingDownload = ''.download''"
    by (simp_all add: fixtureOpts_def suffixOngoingDownload_def)
  show ?thesis
    using C8_close_is_last [OF r ok] r ok by (simp add: d) blast
qed

lemma Download_fs_independent:
  "map_option result (Download opts ev fs sourceUrls)
     = map_option result (Download opts ev fs' sourceUrls)
   \<and> map_option trace (Download opts ev fs sourceUrls)
     = map_option trace (Download opts ev fs' sourceUrls)"
  by (simp add: Download_def downloadStaged_def rename_def Let_def
      split: prod.splits option.splits outcome.splits list.splits)

section \<open>C9: the destination path\<close>

lemma chunkEvent_paths: "chunkEvent dest x \<Longrightarrow> set (paths x) \<subseteq> {dest}"
  by (cases x) auto

text \<open>
  C9: for every \<open>Download\<close> call that returns an error (or panics), the file system at
  the destination path is as before the call, and the only path whose contents may differ
  is the staging path (destination plus \<open>.download\<close>); in every call the one event that
  names the destination path is the rename of the staging file onto it; and that rename
  is attempted only when every probe succeeded, the descriptors reconciled, the staging
  file was created, the chunk download returned nil and the integrity check passed or was
  not required. A call that attempted the rename and returns an error returns the error
  of the rename itself, which left the destination as it was.
\<close>

theorem C9_destination_untouched:
  assumes run: "Download opts ev fs sourceUrls = Some r"
  shows "(result r \<noteq> Returned None
           \<longrightarrow> files r (DestFilePath opts) = fs (DestFilePath opts)
             \<and> (\<forall>p. p \<noteq> DestFilePath opts @ suffixOngoingDownload \<longrightarrow> files r p = fs p))
    \<and> (\<forall>x \<in> set (trace r). DestFilePath opts \<in> set (paths x)
           \<longrightarrow> x = Rename (DestFilePath opts @ suffixOngoingDownload) (DestFilePath opts))
    \<and> (Rename (DestFilePath opts @ suffixOngoingDownload) (DestFilePath opts) \<in> set (trace r)
         \<longrightarrow> (\<exists>sfm rest tr f.
                fetchFileMetadataFromSources ev sourceUrls = (sfm # rest, None)
              \<and> allSourcesMatchFileMetadata (sfm # rest) (CheckETag opts)
              \<and> osCreate ev = None
              \<and> downloadFileContents opts ev (sourceUrlsSortedByEstLatency ev (sfm # rest))
                    (fileMetadata.truncate sfm) (DestFilePath opts @ suffixOngoingDownload) []
                  = Some (Returned None, tr, f)
              \<and> fst (checkETag opts ev (fileMetadata.truncate sfm)
                         (DestFilePath opts @ suffixOngoingDownload) f) = None
              \<and> (result r \<noteq> Returned None
                   \<longrightarrow> (\<exists>msg. osRename ev = Some msg
                          \<and> result r = Returned (Some (ErrOther msg))))))"
proof -
  note [simp] = staging_neq suffix_nonempty
  let ?S = "DestFilePath opts @ suffixOngoingDownload"
  let ?D = "DestFilePath opts"
  from run show ?thesis
  proof (cases rule: Download_elim)
    case (staged sfm rest)
    from staged(4) show ?thesis
    proof (cases rule: downloadStaged_elim)
      case (create msg)
      then show ?thesis by simp
    next
      case (panic p tr f)
      note ev = downloadFileContents_events [OF panic(2)]
      have "\<forall>x \<in> set tr. ?D \<notin> set (paths x)"
        using ev chunkEvent_paths by fastforce
      then show ?thesis using panic(3) chunkEvents_notin(2) [OF ev] by auto
    next
      case (failed e tr f)
      note ev = downloadFileContents_events [OF failed(2)]
      have "\<forall>x \<in> set tr. ?D \<notin> set (paths x)"
        using ev chunkEvent_paths by fastforce
      then show ?thesis using failed(3) chunkEvents_notin(2) [OF ev] by auto
    next
      case (unverified e tr f tr')
      note ev = downloadFileContents_events [OF unverified(2)]
      have "\<forall>x \<in> set tr. ?D \<notin> set (paths x)"
        using ev chunkEvent_paths by fastforce
      moreover have "tr' = [Md5 ?S]"
        using unverified(3) by (auto simp: checkETag_cases split: if_splits)
      ultimately show ?thesis using unverified(4) chunkEvents_notin(2) [OF ev] by auto
    next
      case (renamed tr f tr' re tr'' fs')
      note ev = downloadFileContents_events [OF renamed(2)]
      have a: "\<forall>x \<in> set tr. ?D \<notin> set (paths x)"
        using ev chunkEvent_paths by fastforce
      have b: "tr' = [] \<or> tr' = [Md5 ?S]"
        using renamed(3) by (auto simp: checkETag_cases split: if_splits)
      have c: "tr'' = [Rename ?S ?D]"
        using renamed(4) by (auto simp: rename_def split: option.splits)
      have d: "re \<noteq> None \<longrightarrow> (\<exists>msg. osRename ev = Some msg \<and> re = Some (ErrOther msg))
                 \<and> fs' = fs(?S \<mapsto> f)"
        using renamed(4) by (auto simp: rename_def split: option.splits)
      have stages: "\<exists>sfm' rest' tr f.
                fetchFileMetadataFromSources ev sourceUrls = (sfm' # rest', None)
              \<and> allSourcesMatchFileMetadata (sfm' # rest') (CheckETag opts)
              \<and> osCreate ev = None
              \<and> downloadFileContents opts ev (sourceUrlsSortedByEstLatency ev (sfm' # rest'))
                    (fileMetadata.truncate sfm') ?S [] = Some (Returned None, tr, f)
              \<and> fst (checkETag opts ev (fileMetadata.truncate sfm') ?S f) = None
              \<and> (result r \<noteq> Returned None
                   \<longrightarrow> (\<exists>msg. osRename ev = Some msg
                          \<and> result r = Returned (Some (ErrOther msg))))"
        using staged(2,3) renamed(1,2,3,5) d by auto
      have files: "result r \<noteq> Returned None
           \<longrightarrow> files r ?D = fs ?D \<and> (\<forall>p. p \<noteq> ?S \<longrightarrow> files r p = fs p)"
        using renamed(5) d by auto
      have touch: "\<forall>x \<in> set (trace r). ?D \<in> set (paths x) \<longrightarrow> x = Rename ?S ?D"
        using renamed(5) a b c by auto
      show ?thesis using files touch stages by blast
    qed
  qed auto
qed


theorem C9_destination_untouched_witness:
  "\<exists>r. Download (fixtureOpts 1 False)
           ((fixtureEnv [1, 2, 3, 4])\<lparr>osRename := Some ''permission denied''\<rparr>)
           [''dest.txt'' \<mapsto> [9]] [''a''] = Some r
      \<and> result r = Returned (Some (ErrOther ''permission denied''))
      \<and> Rename ''dest.txt.download'' ''dest.txt'' \<in> set (trace r)
      \<and> files r ''dest.txt'' = Some [9]
      \<and> files r ''other.txt'' = None"
proof -
  let ?ev = "(fixtureEnv [1, 2, 3, 4])\<lparr>osRename := Some ''permission denied''\<rparr>"
  let ?fs = "[''dest.txt'' \<mapsto> [9 :: 8 word]]"
  have "map_option result (Download (fixtureOpts 1 False) ?ev Map.empty [''a''])
        = Some (Returned (Some (ErrOther ''permission denied'')))"
    by code_simp
  then have "map_option result (Download (fixtureOpts 1 False) ?ev ?fs [''a''])
        = Some (Returned (Some (ErrOther ''permission denied'')))"
    using Download_fs_independent [of "fixtureOpts 1 False" ?ev ?fs "[''a'']" Map.empty]
    by simp
  then obtain r where r: "Download (fixtureOpts 1 False) ?ev ?fs [''a''] = Some r"
    and e: "result r = Returned (Some (ErrOther ''permission denied''))"
    using run_exists by blast
  have "map_option trace (Download (fixtureOpts 1 False) ?ev Map.empty [''a''])
        = Some [Create ''dest.txt.download'',
           HttpGet ''a'' 0 4, WriteAt ''dest.txt.download'' 0 [1, 2, 3, 4],
           Rename ''dest.txt.download'' ''dest.txt'', Close ''dest.txt.download'']"
    by code_simp
  then have "map_option trace (Download (fixtureOpts 1 False) ?ev ?fs [''a''])
        = Some [Create ''dest.txt.download'',
           HttpGet ''a'' 0 4, WriteAt ''dest.txt.download'' 0 [1, 2, 3, 4],
           Rename ''dest.txt.download'' ''dest.txt'', Close ''dest.txt.download'']"
    using Download_fs_independent [of "fixtureOpts 1 False" ?ev ?fs "[''a'']" Map.empty]
    by simp
  then have t: "Rename ''dest.txt.download'' ''dest.txt'' \<in> set (trace r)"
    using r by simp
  have d: "DestFilePath (fixtureOpts 1 False) = ''dest.txt''"
    "suffixOngoingDownload = ''.download''"
    by (simp_all add: fixtureOpts_def suffixOngoingDownload_def)
  have "files r ''dest.txt'' = ?fs ''dest.txt''
        \<and> (\<forall>p. p \<noteq> ''dest.txt.download'' \<longrightarrow> files r p = ?fs p)"
    using C9_destination_untouched [OF r] e by (simp add: d)
  then have "files r ''dest.txt'' = Some [9] \<and> files r ''other.txt'' = None"
    by simp
  then show ?thesis using r e t by blast
qed

section \<open>C10: the division by the number of connections\<close>







end
